theory Spec2Isabelle
  imports Main "HOL-Library.Word"
begin

unbundle bit_operations_syntax

section \<open>Bytes, errors and streams\<close>

text \<open>
  Go's \<^verbatim>\<open>byte\<close>/\<^verbatim>\<open>uint8\<close>, \<^verbatim>\<open>uint16\<close> and \<^verbatim>\<open>uint32\<close> are words of that width; an
  \<^verbatim>\<open>int32\<close> is a 32-bit word read in two's complement (\<open>sint\<close>). A Go \<^verbatim>\<open>string\<close> and a
  \<^verbatim>\<open>[]byte\<close> are lists of bytes.
\<close>

type_synonym u8 = "8 word"
type_synonym u16 = "16 word"
type_synonym u32 = "32 word"
type_synonym int32 = "32 word"

text \<open>
  The error values the code can return. \<open>VNCError\<close> is the value of \<^verbatim>\<open>NewVNCError(msg)\<close>;
  \<open>EOF\<close> and \<open>ErrUnexpectedEOF\<close> are the two errors of \<^verbatim>\<open>io.ReadFull\<close> on a stream that
  ends; \<open>NetError\<close> is a failed write on the connection; \<open>KeySizeError\<close> is the error of
  \<^verbatim>\<open>crypto/des\<close>; \<open>UnsupportedEncodingType id\<close> is
  \<^verbatim>\<open>fmt.Errorf("unsupported encoding type: %d", id)\<close>.
\<close>

datatype error =
    VNCError string
  | EOF
  | ErrUnexpectedEOF
  | NetError string
  | KeySizeError nat
  | UnsupportedEncodingType int32

text \<open>
  Modelled from the spec: \<^verbatim>\<open>NewVNCError\<close> is not among the sources; it builds the error that
  carries the given message (the spec's MissingCredentialError for the message of
  \<^verbatim>\<open>Handshake\<close>).
\<close>

definition NewVNCError :: "string \<Rightarrow> error" where
  "NewVNCError msg = VNCError msg"

text \<open>
  An \<^verbatim>\<open>io.Reader\<close> is the list of bytes it will still deliver, followed by end of file.
  \<^verbatim>\<open>io.ReadFull(r, buf)\<close> with \<open>n = len(buf)\<close> delivers exactly \<open>n\<close> bytes, or fails with
  \<open>EOF\<close> when no byte was read and with \<open>ErrUnexpectedEOF\<close> when the stream ended after
  some; a failed read has consumed what was left.
\<close>

type_synonym reader = "u8 list"

definition ReadFull :: "nat \<Rightarrow> reader \<Rightarrow> (error + u8 list) \<times> reader" where
  "ReadFull n r =
     (if n \<le> length r then (Inr (take n r), drop n r)
      else (Inl (if r = [] then EOF else ErrUnexpectedEOF), []))"

text \<open>\<^verbatim>\<open>binary.BigEndian.Uint16\<close> and \<^verbatim>\<open>Uint32\<close> on a 2- and 4-byte buffer.\<close>

definition Uint16 :: "u8 list \<Rightarrow> u16" where
  "Uint16 b = ucast (b ! 1) OR push_bit 8 (ucast (b ! 0))"

definition Uint32 :: "u8 list \<Rightarrow> u32" where
  "Uint32 b = ucast (b ! 3) OR push_bit 8 (ucast (b ! 2))
                OR push_bit 16 (ucast (b ! 1)) OR push_bit 24 (ucast (b ! 0))"

text \<open>
  \<^verbatim>\<open>binary.Read(r, binary.BigEndian, &v)\<close> for a \<^verbatim>\<open>uint16\<close>, a \<^verbatim>\<open>uint32\<close> and a byte array or
  slice of \<open>n\<close> bytes: one \<^verbatim>\<open>io.ReadFull\<close> of the value's size, then the decoding.
\<close>

definition Read_uint16 :: "reader \<Rightarrow> (error + u16) \<times> reader" where
  "Read_uint16 r =
     (case ReadFull 2 r of
        (Inl err, r) \<Rightarrow> (Inl err, r)
      | (Inr bs, r) \<Rightarrow> (Inr (Uint16 bs), r))"

definition Read_uint32 :: "reader \<Rightarrow> (error + u32) \<times> reader" where
  "Read_uint32 r =
     (case ReadFull 4 r of
        (Inl err, r) \<Rightarrow> (Inl err, r)
      | (Inr bs, r) \<Rightarrow> (Inr (Uint32 bs), r))"

definition Read_bytes :: "nat \<Rightarrow> reader \<Rightarrow> (error + u8 list) \<times> reader" where
  "Read_bytes n r = ReadFull n r"

text \<open>
  The big-endian layout of a 16- and a 32-bit value on the wire
  (\<^verbatim>\<open>binary.BigEndian.PutUint16\<close>, \<^verbatim>\<open>PutUint32\<close>): what a server sends.
\<close>

definition PutUint16 :: "u16 \<Rightarrow> u8 list" where
  "PutUint16 v = [ucast (drop_bit 8 v), ucast v]"

definition PutUint32 :: "u32 \<Rightarrow> u8 list" where
  "PutUint32 v = [ucast (drop_bit 24 v), ucast (drop_bit 16 v), ucast (drop_bit 8 v), ucast v]"

text \<open>
  A \<^verbatim>\<open>net.Conn\<close>: the bytes the peer has sent and that are not read yet, the bytes written
  so far, and whether writing fails (\<open>Some msg\<close>: every \<^verbatim>\<open>Write\<close> returns that network
  error).
\<close>

record Conn =
  rd :: "u8 list"
  wr :: "u8 list"
  wr_err :: "string option"

definition Conn_Read :: "nat \<Rightarrow> Conn \<Rightarrow> (error + u8 list) \<times> Conn" where
  "Conn_Read n conn =
     (case Read_bytes n (rd conn) of (res, r) \<Rightarrow> (res, conn\<lparr>rd := r\<rparr>))"

definition Conn_Write :: "u8 list \<Rightarrow> Conn \<Rightarrow> error option \<times> Conn" where
  "Conn_Write bs conn =
     (case wr_err conn of
        Some msg \<Rightarrow> (Some (NetError msg), conn)
      | None \<Rightarrow> (None, conn\<lparr>wr := wr conn @ bs\<rparr>))"

text \<open>The builtin \<^verbatim>\<open>copy(dst, src)\<close>: the first \<open>min (len dst) (len src)\<close> bytes are copied.\<close>

definition copy_bytes :: "u8 list \<Rightarrow> u8 list \<Rightarrow> u8 list" where
  "copy_bytes dst src = (let n = min (length dst) (length src) in take n src @ drop n dst)"

section \<open>The block cipher\<close>

text \<open>
  \<^verbatim>\<open>crypto/des\<close> is Go's standard library. \<^verbatim>\<open>des.NewCipher(key)\<close> is a parameter
  \<open>NewCipher\<close> of the model: it returns an error or a cipher, and a cipher is its block
  function on byte blocks. \<^verbatim>\<open>cipher.BlockSize()\<close> is the constant \<^verbatim>\<open>des.BlockSize = 8\<close>.
\<close>

type_synonym block = "u8 list \<Rightarrow> u8 list"

definition BlockSize :: nat where
  "BlockSize = 8"

text \<open>
  \<^verbatim>\<open>cipher.Encrypt(c[lo:hi], c[lo:hi])\<close>: the block \<open>c[lo:hi]\<close> is replaced, in the buffer
  \<open>c\<close>, by its encryption.
\<close>

definition Encrypt :: "block \<Rightarrow> nat \<Rightarrow> nat \<Rightarrow> u8 list \<Rightarrow> u8 list" where
  "Encrypt cipher lo hi c = take lo c @ cipher (take (hi - lo) (drop lo c)) @ drop hi c"

section \<open>security.go: VNC authentication\<close>

definition vncAuthChallengeSize :: nat where
  "vncAuthChallengeSize = 16"

text \<open>The body of the loop of \<^verbatim>\<open>encode\<close> (lines 84 to 86): three assignments to \<open>key[i]\<close>.\<close>

definition swap_step :: "u8 list \<Rightarrow> nat \<Rightarrow> u8 list" where
  "swap_step key i =
     (let key = key[i := push_bit 1 (key ! i AND 0x55) OR drop_bit 1 (key ! i AND 0xAA)];
          key = key[i := push_bit 2 (key ! i AND 0x33) OR drop_bit 2 (key ! i AND 0xCC)];
          key = key[i := push_bit 4 (key ! i AND 0x0F) OR drop_bit 4 (key ! i AND 0xF0)]
      in key)"

text \<open>
  Lines 78 to 87 of \<^verbatim>\<open>encode\<close>: the key is 8 zero bytes, the password is copied over it,
  and \<^verbatim>\<open>for i := range key\<close> runs the loop body at every index.
\<close>

definition encode_key :: "u8 list \<Rightarrow> u8 list" where
  "encode_key Password =
     (let key = replicate 8 0;
          key = copy_bytes key Password
      in fold (\<lambda>i key. swap_step key i) [0..<length key] key)"

text \<open>
  Lines 94 to 96: \<^verbatim>\<open>for i := 0; i < vncAuthChallengeSize; i += cipher.BlockSize()\<close>.
\<close>

function encrypt_loop :: "block \<Rightarrow> nat \<Rightarrow> u8 list \<Rightarrow> u8 list" where
  "encrypt_loop cipher i c =
     (if i < vncAuthChallengeSize
      then encrypt_loop cipher (i + BlockSize) (Encrypt cipher i (i + BlockSize) c)
      else c)"
  by pat_completeness auto
termination
  by (relation "measure (\<lambda>(cipher, i, c). vncAuthChallengeSize - i)")
     (auto simp: BlockSize_def)

declare encrypt_loop.simps [simp del]

text \<open>
  \<^verbatim>\<open>encode\<close> returns its error and leaves the encrypted challenge in the array it was
  given: the model returns both.
\<close>

definition encode ::
  "(u8 list \<Rightarrow> error + block) \<Rightarrow> u8 list \<Rightarrow> u8 list \<Rightarrow> error option \<times> u8 list" where
  "encode NewCipher Password c =
     (let key = encode_key Password
      in case NewCipher key of
           Inl err \<Rightarrow> (Some err, c)
         | Inr cipher \<Rightarrow> (None, encrypt_loop cipher 0 c))"

text \<open>
  \<^verbatim>\<open>Handshake\<close> of security.go. Line 66 calls \<^verbatim>\<open>auth.encode(&challenge)\<close> as a statement:
  the error it returns is dropped, the array is kept.
\<close>

definition Handshake ::
  "(u8 list \<Rightarrow> error + block) \<Rightarrow> u8 list \<Rightarrow> Conn \<Rightarrow> error option \<times> Conn" where
  "Handshake NewCipher Password conn =
     (if Password = []
      then (Some (NewVNCError
              ''securityHandshake: handshake failed; no password provided for VNCAuth.''), conn)
      else
        (case Conn_Read vncAuthChallengeSize conn of
           (Inl err, conn) \<Rightarrow> (Some err, conn)
         | (Inr challenge, conn) \<Rightarrow>
             (let challenge = snd (encode NewCipher Password challenge)
              in case Conn_Write challenge conn of
                   (Some err, conn) \<Rightarrow> (Some err, conn)
                 | (None, conn) \<Rightarrow> (None, conn))))"

section \<open>client\_auth\_vnc.go: the second implementation\<close>

definition reverse :: "u8 \<Rightarrow> u8" where
  "reverse x =
     (let x = push_bit 1 (x AND 0x55) OR drop_bit 1 (x AND 0xAA);
          x = push_bit 2 (x AND 0x33) OR drop_bit 2 (x AND 0xCC);
          x = push_bit 4 (x AND 0x0F) OR drop_bit 4 (x AND 0xF0)
      in x)"

text \<open>Lines 25 to 33 of \<^verbatim>\<open>Handshake\<close> in client\_auth\_vnc.go: the key.\<close>

definition Handshake_key :: "u8 list \<Rightarrow> u8 list" where
  "Handshake_key Password =
     (let key = replicate 8 0;
          key = copy_bytes key Password
      in fold (\<lambda>i key. key[i := reverse (key ! i)]) [0..<length key] key)"

definition Handshake_client_auth_vnc ::
  "(u8 list \<Rightarrow> error + block) \<Rightarrow> u8 list \<Rightarrow> Conn \<Rightarrow> error option \<times> Conn" where
  "Handshake_client_auth_vnc NewCipher Password conn =
     (case Conn_Read 16 conn of
        (Inl err, conn) \<Rightarrow> (Some err, conn)
      | (Inr challenge, conn) \<Rightarrow>
          (let key = Handshake_key Password
           in case NewCipher key of
                Inl err \<Rightarrow> (Some err, conn)
              | Inr cipher \<Rightarrow>
                  (let challenge = Encrypt cipher 0 8 challenge;
                       challenge = Encrypt cipher 8 16 challenge
                   in case Conn_Write challenge conn of
                        (Some err, conn) \<Rightarrow> (Some err, conn)
                      | (None, conn) \<Rightarrow> (None, conn))))"

section \<open>server.go: messages from the server\<close>

record Color =
  R :: u16
  G :: u16
  B :: u16

text \<open>\<^verbatim>\<open>RectangleMessage\<close>, the wire format of a rectangle header: 12 bytes.\<close>

record RectangleMessage =
  msg_X :: u16
  msg_Y :: u16
  msg_Width :: u16
  msg_Height :: u16
  msg_Encoding :: int32

text \<open>
  The \<^verbatim>\<open>Encoding\<close> interface is not among the sources: the type \<open>'e\<close> of its
  implementations, its method \<^verbatim>\<open>Type()\<close>, the constant \<^verbatim>\<open>Raw\<close> and the constructor
  \<^verbatim>\<open>NewRawEncoding\<close> are parameters. The field \<^verbatim>\<open>Enc\<close> is an interface value: \<open>None\<close> is
  \<^verbatim>\<open>nil\<close>, the zero value \<^verbatim>\<open>make\<close> fills a rectangle with.
\<close>

record 'e Rectangle =
  X :: u16
  Y :: u16
  Width :: u16
  Height :: u16
  Enc :: "'e option"

record 'e FramebufferUpdate =
  Msg :: u8
  NumRect :: u16
  Rects :: "'e Rectangle list"

definition FramebufferUpdateMsg :: u8 where "FramebufferUpdateMsg = 0"
definition SetColorMapEntriesMsg :: u8 where "SetColorMapEntriesMsg = 1"
definition BellMsg :: u8 where "BellMsg = 2"
definition ServerCutTextMsg :: u8 where "ServerCutTextMsg = 3"

text \<open>\<^verbatim>\<open>uint16(len(rects))\<close> keeps the low 16 bits of the length.\<close>

definition NewFramebufferUpdate :: "'e Rectangle list \<Rightarrow> 'e FramebufferUpdate" where
  "NewFramebufferUpdate rects =
     \<lparr>Msg = FramebufferUpdateMsg, NumRect = of_nat (length rects), Rects = rects\<rparr>"

record SetColorMapEntries =
  FirstColor :: u16
  Colors :: "Color list"

record ServerCutText =
  Text :: "u8 list"

text \<open>
  Modelled from the spec: \<^verbatim>\<open>ClientConn\<close> is not among the sources. Of the connection the
  decoders use: the stream that \<^verbatim>\<open>receive\<close> reads, the configured encoding list
  (\<^verbatim>\<open>c.Encodings()\<close>, "the currently configured encoding list"), the color map ("a mapping
  from a color index (unsigned 16-bit) to Color, owned by the connection, entries are
  never removed, only inserted/overwritten") and the \<^verbatim>\<open>debug\<close> flag, which only
  switches a line of the process log on.
\<close>

record 'e ClientConn =
  stream :: reader
  Encodings :: "'e list"
  colorMap :: "u16 \<rightharpoonup> Color"
  debug :: bool

text \<open>
  Modelled from the spec: \<^verbatim>\<open>c.receive(buffer)\<close> "fills buffer or fails", reading the
  connection's stream big-endian. Here for a buffer of \<open>n\<close> bytes.
\<close>

definition receive :: "nat \<Rightarrow> 'e ClientConn \<Rightarrow> (error + u8 list) \<times> 'e ClientConn" where
  "receive n c = (case ReadFull n (stream c) of (res, r) \<Rightarrow> (res, c\<lparr>stream := r\<rparr>))"

definition receive_uint16 :: "'e ClientConn \<Rightarrow> (error + u16) \<times> 'e ClientConn" where
  "receive_uint16 c =
     (case receive 2 c of
        (Inl err, c) \<Rightarrow> (Inl err, c)
      | (Inr bs, c) \<Rightarrow> (Inr (Uint16 bs), c))"

text \<open>\<^verbatim>\<open>c.receive(&msg)\<close> for a \<^verbatim>\<open>RectangleMessage\<close>: its five fields in order.\<close>

definition receive_RectangleMessage ::
  "'e ClientConn \<Rightarrow> (error + RectangleMessage) \<times> 'e ClientConn" where
  "receive_RectangleMessage c =
     (case receive 12 c of
        (Inl err, c) \<Rightarrow> (Inl err, c)
      | (Inr bs, c) \<Rightarrow>
          (Inr \<lparr>msg_X = Uint16 (take 2 bs),
                msg_Y = Uint16 (take 2 (drop 2 bs)),
                msg_Width = Uint16 (take 2 (drop 4 bs)),
                msg_Height = Uint16 (take 2 (drop 6 bs)),
                msg_Encoding = Uint32 (take 4 (drop 8 bs))\<rparr>, c))"

subsection \<open>FramebufferUpdate\<close>

text \<open>Lines 80 to 84: the map of the encodings supported.\<close>

definition encMap :: "('e \<Rightarrow> int32) \<Rightarrow> int32 \<Rightarrow> (Color list \<Rightarrow> 'e) \<Rightarrow> 'e list \<Rightarrow> (int32 \<rightharpoonup> 'e)" where
  "encMap Type Raw NewRawEncoding es =
     (let m = fold (\<lambda>e m. m(Type e \<mapsto> e)) es Map.empty
      in m(Raw \<mapsto> NewRawEncoding []))"

text \<open>
  Lines 96 to 112: \<^verbatim>\<open>for i := uint16(0); i < numRects; i++\<close>, filling \<open>rects[i]\<close>.
\<close>

function rects_loop ::
  "(int32 \<rightharpoonup> 'e) \<Rightarrow> u16 \<Rightarrow> u16 \<Rightarrow> 'e Rectangle list \<Rightarrow> 'e ClientConn
     \<Rightarrow> (error + 'e Rectangle list) \<times> 'e ClientConn" where
  "rects_loop m numRects i rects c =
     (if i < numRects
      then
        (case receive_RectangleMessage c of
           (Inl err, c) \<Rightarrow> (Inl err, c)
         | (Inr msg, c) \<Rightarrow>
             (case m (msg_Encoding msg) of
                None \<Rightarrow> (Inl (UnsupportedEncodingType (msg_Encoding msg)), c)
              | Some enc \<Rightarrow>
                  rects_loop m numRects (i + 1)
                    (rects[unat i := \<lparr>X = msg_X msg, Y = msg_Y msg, Width = msg_Width msg,
                                     Height = msg_Height msg, Enc = Some enc\<rparr>]) c))
      else (Inr rects, c))"
  by pat_completeness auto
termination
proof (relation "measure (\<lambda>(m, numRects, i, rects, c). unat numRects - unat i)")
  show "wf (measure (\<lambda>(m, numRects, i, rects, c). unat numRects - unat i))"
    by simp
next
  fix m :: "int32 \<rightharpoonup> 'e" and numRects i :: u16
    and rects rects' :: "'e Rectangle list" and c c' :: "'e ClientConn"
  assume "i < numRects"
  then have "unat numRects - unat (i + 1) < unat numRects - unat i"
    by unat_arith
  then show "((m, numRects, i + 1, rects', c'), (m, numRects, i, rects, c))
               \<in> measure (\<lambda>(m, numRects, i, rects, c). unat numRects - unat i)"
    by simp
qed

declare rects_loop.simps [simp del]

text \<open>
  \<^verbatim>\<open>FramebufferUpdate.Read\<close>. It reads through \<^verbatim>\<open>c.receive\<close>; its reader argument is not
  used. On an error the message returned is \<^verbatim>\<open>nil\<close>: the result is the error alone.
\<close>

definition FramebufferUpdate_Read ::
  "('e \<Rightarrow> int32) \<Rightarrow> int32 \<Rightarrow> (Color list \<Rightarrow> 'e) \<Rightarrow> 'e ClientConn
     \<Rightarrow> (error + 'e FramebufferUpdate) \<times> 'e ClientConn" where
  "FramebufferUpdate_Read Type Raw NewRawEncoding c =
     (let m = encMap Type Raw NewRawEncoding (Encodings c)
      in case receive 1 c of
           (Inl err, c) \<Rightarrow> (Inl err, c)
         | (Inr pad, c) \<Rightarrow>
             (case receive_uint16 c of
                (Inl err, c) \<Rightarrow> (Inl err, c)
              | (Inr numRects, c) \<Rightarrow>
                  (let rects = replicate (unat numRects)
                                 \<lparr>X = 0, Y = 0, Width = 0, Height = 0, Enc = None\<rparr>
                   in case rects_loop m numRects 0 rects c of
                        (Inl err, c) \<Rightarrow> (Inl err, c)
                      | (Inr rects, c) \<Rightarrow> (Inr (NewFramebufferUpdate rects), c))))"

subsection \<open>SetColorMapEntries\<close>

text \<open>
  Lines 160 to 177: \<^verbatim>\<open>for i := uint16(0); i < numColors; i++\<close>. The three fields of
  \<open>result.Colors[i]\<close> are read in turn, each read returning at its error; then the color
  is stored in the connection's color map at \<open>result.FirstColor + i\<close>, a \<^verbatim>\<open>uint16\<close> sum
  (\<open>first\<close> is \<open>result.FirstColor\<close>).
\<close>

function colors_loop ::
  "u16 \<Rightarrow> u16 \<Rightarrow> u16 \<Rightarrow> Color list \<Rightarrow> 'e ClientConn \<Rightarrow> reader
     \<Rightarrow> (error + Color list) \<times> 'e ClientConn \<times> reader" where
  "colors_loop first numColors i colors c r =
     (if i < numColors
      then
        (case Read_uint16 r of
           (Inl err, r) \<Rightarrow> (Inl err, c, r)
         | (Inr vR, r) \<Rightarrow>
             (case Read_uint16 r of
                (Inl err, r) \<Rightarrow> (Inl err, c, r)
              | (Inr vG, r) \<Rightarrow>
                  (case Read_uint16 r of
                     (Inl err, r) \<Rightarrow> (Inl err, c, r)
                   | (Inr vB, r) \<Rightarrow>
                       (let color = \<lparr>R = vR, G = vG, B = vB\<rparr>
                        in colors_loop first numColors (i + 1)
                             (colors[unat i := color])
                             (c\<lparr>colorMap := (colorMap c)(first + i \<mapsto> color)\<rparr>) r))))
      else (Inr colors, c, r))"
  by pat_completeness auto
termination
proof (relation "measure (\<lambda>(first, numColors, i, colors, c, r). unat numColors - unat i)")
  show "wf (measure (\<lambda>(first, numColors, i, colors, c, r). unat numColors - unat i))"
    by simp
next
  fix first numColors i :: u16 and colors colors' :: "Color list"
    and c c' :: "'e ClientConn" and r r' :: reader
  assume "i < numColors"
  then have "unat numColors - unat (i + 1) < unat numColors - unat i"
    by unat_arith
  then show "((first, numColors, i + 1, colors', c', r'), (first, numColors, i, colors, c, r))
               \<in> measure (\<lambda>(first, numColors, i, colors, c, r). unat numColors - unat i)"
    by simp
qed

declare colors_loop.simps [simp del]

definition SetColorMapEntries_Read ::
  "'e ClientConn \<Rightarrow> reader \<Rightarrow> (error + SetColorMapEntries) \<times> 'e ClientConn \<times> reader" where
  "SetColorMapEntries_Read c r =
     (case ReadFull 1 r of
        (Inl err, r) \<Rightarrow> (Inl err, c, r)
      | (Inr padding, r) \<Rightarrow>
          (case Read_uint16 r of
             (Inl err, r) \<Rightarrow> (Inl err, c, r)
           | (Inr first, r) \<Rightarrow>
               (case Read_uint16 r of
                  (Inl err, r) \<Rightarrow> (Inl err, c, r)
                | (Inr numColors, r) \<Rightarrow>
                    (let colors = replicate (unat numColors) \<lparr>R = 0, G = 0, B = 0\<rparr>
                     in case colors_loop first numColors 0 colors c r of
                          (Inl err, c, r) \<Rightarrow> (Inl err, c, r)
                        | (Inr colors, c, r) \<Rightarrow>
                            (Inr \<lparr>FirstColor = first, Colors = colors\<rparr>, c, r)))))"

subsection \<open>ServerCutText\<close>

text \<open>
  \<^verbatim>\<open>ServerCutText.Read\<close>: \<^verbatim>\<open>var padding [1]byte\<close> is read in full, then the length, then
  \<^verbatim>\<open>textLength\<close> bytes. The connection is used for its \<^verbatim>\<open>debug\<close> flag only.
\<close>

definition ServerCutText_Read :: "'e ClientConn \<Rightarrow> reader \<Rightarrow> (error + ServerCutText) \<times> reader" where
  "ServerCutText_Read c r =
     (case ReadFull 1 r of
        (Inl err, r) \<Rightarrow> (Inl err, r)
      | (Inr padding, r) \<Rightarrow>
          (case Read_uint32 r of
             (Inl err, r) \<Rightarrow> (Inl err, r)
           | (Inr textLength, r) \<Rightarrow>
               (case Read_bytes (unat textLength) r of
                  (Inl err, r) \<Rightarrow> (Inl err, r)
                | (Inr textBytes, r) \<Rightarrow> (Inr \<lparr>Text = textBytes\<rparr>, r))))"

section \<open>What the server sent\<close>

text \<open>
  The byte layout of a rectangle header and of a color on the wire, all fields
  big-endian and in the order of the struct, as RFC 6143 lays them out.
\<close>

definition RectangleMessage_bytes :: "RectangleMessage \<Rightarrow> u8 list" where
  "RectangleMessage_bytes msg =
     PutUint16 (msg_X msg) @ PutUint16 (msg_Y msg) @ PutUint16 (msg_Width msg)
       @ PutUint16 (msg_Height msg) @ PutUint32 (msg_Encoding msg)"

definition Color_bytes :: "Color \<Rightarrow> u8 list" where
  "Color_bytes color = PutUint16 (R color) @ PutUint16 (G color) @ PutUint16 (B color)"

text \<open>
  The rectangle that a header stands for under a registry \<open>m\<close>: the position and size of
  the header, and the decoder that \<open>m\<close> has for its encoding id.
\<close>

definition Rectangle_of :: "(int32 \<rightharpoonup> 'e) \<Rightarrow> RectangleMessage \<Rightarrow> 'e Rectangle" where
  "Rectangle_of m msg =
     \<lparr>X = msg_X msg, Y = msg_Y msg, Width = msg_Width msg, Height = msg_Height msg,
      Enc = m (msg_Encoding msg)\<rparr>"

text \<open>
  The color map after the colors \<open>cs\<close> were stored one after the other from key \<open>k\<close> on,
  each store overwriting, the key counting up in 16 bits.
\<close>

fun store_colors :: "u16 \<Rightarrow> Color list \<Rightarrow> (u16 \<rightharpoonup> Color) \<Rightarrow> (u16 \<rightharpoonup> Color)" where
  "store_colors k [] cm = cm"
| "store_colors k (color # cs) cm = store_colors (k + 1) cs (cm(k \<mapsto> color))"

section \<open>Bit reversal and the derived key\<close>

lemma bit_u8_double: "bit (x * 2 :: u8) n = (0 < n \<and> n < 8 \<and> bit x (n - 1))"
proof -
  have "x * 2 = push_bit 1 x"
    by (simp add: push_bit_eq_mult)
  then show ?thesis
    by (auto simp only: bit_push_bit_iff possible_bit_word len_bit0 len_num1 One_nat_def)
qed

lemma less_8_cases:
  "(j::nat) < 8 \<Longrightarrow> j = 0 \<or> j = 1 \<or> j = 2 \<or> j = 3 \<or> j = 4 \<or> j = 5 \<or> j = 6 \<or> j = 7"
  by arith

text \<open>The three swaps together put bit \<open>7 - j\<close> of the byte at position \<open>j\<close>.\<close>

lemma bit_reverse: "j < 8 \<Longrightarrow> bit (reverse x) j = bit x (7 - j)"
  by (drule less_8_cases, elim disjE)
     (simp_all add: reverse_def Let_def bit_simps bit_u8_double)

lemma reverse_twice: "reverse (reverse x) = x"
  by (rule bit_word_eqI) (simp add: bit_reverse)

text \<open>The loop body of security.go is \<open>reverse\<close> of client\_auth\_vnc.go at index \<open>i\<close>.\<close>

lemma swap_step_reverse: "i < length key \<Longrightarrow> swap_step key i = key[i := reverse (key ! i)]"
  by (simp add: swap_step_def reverse_def Let_def)

lemma fold_update_upt:
  "n \<le> length xs \<Longrightarrow>
     fold (\<lambda>i k. k[i := f (k ! i)]) [0..<n] xs = map f (take n xs) @ drop n xs"
proof (induction n)
  case 0
  then show ?case by simp
next
  case (Suc n)
  then have n: "n < length xs" by simp
  have "fold (\<lambda>i k. k[i := f (k ! i)]) [0..<Suc n] xs
          = (map f (take n xs) @ drop n xs)[n := f ((map f (take n xs) @ drop n xs) ! n)]"
    using Suc by simp
  also have "\<dots> = map f (take n xs) @ (drop n xs)[0 := f (xs ! n)]"
    using n by (simp add: list_update_append nth_append)
  also have "\<dots> = map f (take (Suc n) xs) @ drop (Suc n) xs"
    using n by (simp add: take_Suc_conv_app_nth Cons_nth_drop_Suc [symmetric])
  finally show ?case .
qed

lemma fold_swap_step:
  "n \<le> length xs \<Longrightarrow>
     fold (\<lambda>i k. swap_step k i) [0..<n] xs = fold (\<lambda>i k. k[i := reverse (k ! i)]) [0..<n] xs"
proof (induction n)
  case 0
  then show ?case by simp
next
  case (Suc n)
  then show ?case
    by (simp add: swap_step_reverse fold_update_upt)
qed

lemma length_copy_bytes: "length (copy_bytes dst src) = length dst"
  by (simp add: copy_bytes_def Let_def)

lemma copy_bytes_zero:
  "copy_bytes (replicate 8 0) pw = take 8 pw @ replicate (8 - length pw) 0"
  by (simp add: copy_bytes_def Let_def min_def)

lemma Handshake_key_eq:
  "Handshake_key pw = map reverse (take 8 pw @ replicate (8 - length pw) 0)"
  by (simp add: Handshake_key_def Let_def fold_update_upt length_copy_bytes copy_bytes_zero)

lemma encode_key_eq:
  "encode_key pw = map reverse (take 8 pw @ replicate (8 - length pw) 0)"
  by (simp add: encode_key_def Let_def fold_swap_step fold_update_upt length_copy_bytes
        copy_bytes_zero)

text \<open>
  C9: the bit reversal of a byte is an involution: \<open>reverse (reverse b) = b\<close> for every
  byte \<open>b\<close>, for the function \<open>reverse\<close> of client\_auth\_vnc.go and for the loop body of
  \<open>encode\<close> in security.go, which applied twice at an index of the key restores the key.
\<close>

theorem reverse_involution:
  "reverse (reverse b) = b \<and>
   (\<forall>key i. i < length key \<longrightarrow> swap_step (swap_step key i) i = key)"
  by (simp add: swap_step_reverse reverse_twice)

theorem reverse_involution_witness:
  "reverse (reverse 0x61) = 0x61 \<and> (1::nat) < length [0x61, 0x62 :: u8] \<and>
   swap_step (swap_step [0x61, 0x62] 1) 1 = [0x61, 0x62]"
  using reverse_involution [of "0x61"] by simp

text \<open>
  C7: for every password the derived key has exactly 8 bytes; byte \<open>i\<close> of it is the
  bit reversal (bit \<open>j\<close> is bit \<open>7 - j\<close>) of byte \<open>i\<close> of the password when the password
  has one, and of zero otherwise, so that password bytes from the ninth on are dropped.
  The key is a function of the password alone, and both implementations derive the
  same key.
\<close>

theorem derived_key:
  "length (encode_key pw) = 8 \<and>
   (\<forall>i<8. \<forall>j<8. bit (encode_key pw ! i) j
              = bit (if i < length pw then pw ! i else 0) (7 - j)) \<and>
   Handshake_key pw = encode_key pw"
proof (intro conjI allI impI)
  show "length (encode_key pw) = 8"
    by (simp add: encode_key_eq)
  show "Handshake_key pw = encode_key pw"
    by (simp add: encode_key_eq Handshake_key_eq)
  fix i j :: nat
  assume i: "i < 8" and j: "j < 8"
  have "(take 8 pw @ replicate (8 - length pw) 0) ! i = (if i < length pw then pw ! i else 0)"
    using i by (simp add: nth_append)
  moreover have "length (take 8 pw @ replicate (8 - length pw) (0::u8)) = 8"
    by simp
  ultimately have "encode_key pw ! i = reverse (if i < length pw then pw ! i else 0)"
    using i unfolding encode_key_eq by (simp only: nth_map)
  then show "bit (encode_key pw ! i) j = bit (if i < length pw then pw ! i else 0) (7 - j)"
    using j by (simp only: bit_reverse)
qed

theorem derived_key_witness:
  "(0::nat) < 8 \<and> (7::nat) < 8 \<and> length (encode_key [0x61, 0x62]) = 8 \<and>
   bit (encode_key [0x61, 0x62] ! 0) 7 \<and> Handshake_key [0x61, 0x62] = encode_key [0x61, 0x62]"
proof -
  note k = derived_key [of "[0x61, 0x62]"]
  from k have "\<forall>i<8. \<forall>j<8. bit (encode_key [0x61, 0x62] ! i) j
                 = bit (if i < length [0x61, 0x62 :: u8] then [0x61, 0x62 :: u8] ! i else 0) (7 - j)"
    by blast
  then have "bit (encode_key [0x61, 0x62] ! 0) 7
               = bit (if 0 < length [0x61, 0x62 :: u8] then [0x61, 0x62 :: u8] ! 0 else 0) (7 - 7)"
    by (elim allE [of _ 0] impE allE [of _ 7]) simp_all
  then have "bit (encode_key [0x61, 0x62] ! 0) 7"
    by simp
  with k show ?thesis
    by simp
qed

section \<open>The handshake\<close>

text \<open>
  C3: for every stream, the handshake of security.go with an empty password returns the
  missing-credential error and leaves the connection as it was: nothing has been read
  and nothing written.
\<close>

theorem empty_password_no_io:
  "Handshake NewCipher [] conn =
     (Some (VNCError ''securityHandshake: handshake failed; no password provided for VNCAuth.''),
      conn)"
  by (simp add: Handshake_def NewVNCError_def)

text \<open>
  C1: the code at a cipher constructor that rejects the key. \<open>encode\<close> returns the
  constructor's error and leaves the challenge as it was read; \<open>Handshake\<close> of
  security.go has dropped that error: it writes the 16 bytes of the challenge back
  unencrypted and returns no error.
\<close>

theorem handshake_drops_encode_error:
  "encode (\<lambda>key. Inl (KeySizeError (length key))) [0x70]
       [1, 2, 3, 4, 5, 6, 7, 8, 9, 10, 11, 12, 13, 14, 15, 16]
     = (Some (KeySizeError 8), [1, 2, 3, 4, 5, 6, 7, 8, 9, 10, 11, 12, 13, 14, 15, 16]) \<and>
   Handshake (\<lambda>key. Inl (KeySizeError (length key))) [0x70]
       \<lparr>rd = [1, 2, 3, 4, 5, 6, 7, 8, 9, 10, 11, 12, 13, 14, 15, 16], wr = [], wr_err = None\<rparr>
     = (None, \<lparr>rd = [], wr = [1, 2, 3, 4, 5, 6, 7, 8, 9, 10, 11, 12, 13, 14, 15, 16],
                wr_err = None\<rparr>)"
  by (simp add: Handshake_def encode_def encode_key_eq Conn_Read_def Conn_Write_def
        Read_bytes_def ReadFull_def vncAuthChallengeSize_def)

subsection \<open>The two blocks\<close>

lemma encrypt_loop_unroll:
  "encrypt_loop cipher 0 c = Encrypt cipher 8 16 (Encrypt cipher 0 8 c)"
  by (simp add: encrypt_loop.simps [of _ 0] encrypt_loop.simps [of _ 8]
        encrypt_loop.simps [of _ 16] BlockSize_def vncAuthChallengeSize_def)

lemma Encrypt_two_blocks:
  assumes "length c = 16" and "length (cipher (take 8 c)) = 8"
  shows "Encrypt cipher 8 16 (Encrypt cipher 0 8 c) = cipher (take 8 c) @ cipher (drop 8 c)"
  using assms by (simp add: Encrypt_def)

text \<open>
  C8: when the cipher constructor accepts the derived key and the cipher maps 8-byte
  blocks to 8-byte blocks, \<open>encode\<close> turns a 16-byte challenge \<open>c\<close> into the encryption
  of bytes 0 to 7 followed by the encryption of bytes 8 to 15 of \<open>c\<close> itself: the second
  block does not depend on the first, and the buffer still has 16 bytes. The two
  \<open>Encrypt\<close> calls of client\_auth\_vnc.go give the same buffer.
\<close>

theorem encode_two_blocks:
  assumes "NewCipher (encode_key pw) = Inr cipher"
    and "length c = 16"
    and "\<forall>b. length b = 8 \<longrightarrow> length (cipher b) = 8"
  shows "encode NewCipher pw c = (None, cipher (take 8 c) @ cipher (drop 8 c)) \<and>
         length (snd (encode NewCipher pw c)) = 16 \<and>
         Encrypt cipher 8 16 (Encrypt cipher 0 8 c) = cipher (take 8 c) @ cipher (drop 8 c)"
proof -
  have l: "length (cipher (take 8 c)) = 8" and h: "length (cipher (drop 8 c)) = 8"
    using assms(2,3) by simp_all
  have two: "Encrypt cipher 8 16 (Encrypt cipher 0 8 c) = cipher (take 8 c) @ cipher (drop 8 c)"
    using assms(2) l by (rule Encrypt_two_blocks)
  then have "encode NewCipher pw c = (None, cipher (take 8 c) @ cipher (drop 8 c))"
    using assms(1) by (simp add: encode_def encrypt_loop_unroll)
  with two l h show ?thesis
    by simp
qed

text \<open>The witness runs a toy cipher that reverses each block.\<close>

theorem encode_two_blocks_witness:
  "(\<lambda>key. Inr rev) (encode_key [0x70]) = (Inr rev :: error + block) \<and>
   length [1, 2, 3, 4, 5, 6, 7, 8, 9, 10, 11, 12, 13, 14, 15, 16 :: u8] = 16 \<and>
   length (rev [1, 2, 3, 4, 5, 6, 7, 8 :: u8]) = 8 \<and>
   encode (\<lambda>key. Inr rev) [0x70] [1, 2, 3, 4, 5, 6, 7, 8, 9, 10, 11, 12, 13, 14, 15, 16]
     = (None, [8, 7, 6, 5, 4, 3, 2, 1, 16, 15, 14, 13, 12, 11, 10, 9])"
  using encode_two_blocks [of "\<lambda>key. Inr rev" "[0x70]" rev
      "[1, 2, 3, 4, 5, 6, 7, 8, 9, 10, 11, 12, 13, 14, 15, 16]"]
  by simp

subsection \<open>The two implementations\<close>

lemma keys_agree: "Handshake_key pw = encode_key pw"
  by (simp add: encode_key_eq Handshake_key_eq)

lemma Handshake_legacy_fst:
  "NewCipher (encode_key pw) = Inr cipher \<Longrightarrow>
     fst (Handshake_client_auth_vnc NewCipher pw conn) \<noteq> Some (VNCError msg)"
  by (auto simp: Handshake_client_auth_vnc_def keys_agree Conn_Read_def Conn_Write_def
        Read_bytes_def ReadFull_def Let_def split: option.splits)

lemma Handshake_nonempty:
  "NewCipher (encode_key pw) = Inr cipher \<Longrightarrow> pw \<noteq> [] \<Longrightarrow>
     Handshake NewCipher pw conn = Handshake_client_auth_vnc NewCipher pw conn"
  by (simp add: Handshake_def Handshake_client_auth_vnc_def keys_agree encode_def
        encrypt_loop_unroll vncAuthChallengeSize_def Let_def split: prod.splits sum.splits)

lemma Handshake_legacy_response:
  assumes "NewCipher (encode_key pw) = Inr cipher"
    and "rd conn = ch @ rest" and "length ch = 16" and "wr_err conn = None"
    and "length (cipher (take 8 ch)) = 8"
  shows "Handshake_client_auth_vnc NewCipher pw conn
           = (None, conn\<lparr>rd := rest, wr := wr conn @ cipher (take 8 ch) @ cipher (drop 8 ch)\<rparr>)"
  using assms
  by (simp add: Handshake_client_auth_vnc_def keys_agree Conn_Read_def Conn_Write_def
        Read_bytes_def ReadFull_def Let_def Encrypt_two_blocks)

text \<open>
  Where the cipher constructor accepts every key of 8 bytes, the handshakes of
  security.go and of client\_auth\_vnc.go return the same result and leave the same
  connection for every non-empty password and every connection; for the empty password
  their results differ, security.go rejecting it and client\_auth\_vnc.go processing it
  as any other password. On a connection that presents a 16-byte challenge \<open>ch\<close> and
  accepts the write, with a cipher that maps 8-byte blocks to 8-byte blocks, what is
  written is the encryption of the two halves of \<open>ch\<close>.
\<close>

lemma handshakes_agree_accepted:
  assumes "\<forall>key. length key = 8 \<longrightarrow> (\<exists>cipher. NewCipher key = Inr cipher)"
  shows "(pw \<noteq> [] \<longrightarrow>
            Handshake NewCipher pw conn = Handshake_client_auth_vnc NewCipher pw conn) \<and>
         (pw = [] \<longrightarrow>
            fst (Handshake NewCipher pw conn)
              \<noteq> fst (Handshake_client_auth_vnc NewCipher pw conn)) \<and>
         (NewCipher (encode_key pw) = Inr cipher \<and>
          rd conn = ch @ rest \<and> length ch = 16 \<and> wr_err conn = None \<and>
          (\<forall>b. length b = 8 \<longrightarrow> length (cipher b) = 8) \<longrightarrow>
            Handshake_client_auth_vnc NewCipher pw conn
              = (None, conn\<lparr>rd := rest,
                             wr := wr conn @ cipher (take 8 ch) @ cipher (drop 8 ch)\<rparr>))"
proof -
  have "length (encode_key pw) = 8"
    by (simp add: encode_key_eq)
  with assms obtain ciph where ciph: "NewCipher (encode_key pw) = Inr ciph"
    by blast
  show ?thesis
  proof (intro conjI impI)
    assume "pw \<noteq> []"
    with ciph show "Handshake NewCipher pw conn = Handshake_client_auth_vnc NewCipher pw conn"
      by (rule Handshake_nonempty)
  next
    assume "pw = []"
    then have "fst (Handshake NewCipher pw conn)
                 = Some (VNCError
                     ''securityHandshake: handshake failed; no password provided for VNCAuth.'')"
      by (simp add: Handshake_def NewVNCError_def)
    with Handshake_legacy_fst [of NewCipher pw ciph conn] ciph
    show "fst (Handshake NewCipher pw conn)
            \<noteq> fst (Handshake_client_auth_vnc NewCipher pw conn)"
      by metis
  next
    assume a: "NewCipher (encode_key pw) = Inr cipher \<and>
               rd conn = ch @ rest \<and> length ch = 16 \<and> wr_err conn = None \<and>
               (\<forall>b. length b = 8 \<longrightarrow> length (cipher b) = 8)"
    then have "length (cipher (take 8 ch)) = 8"
      by simp
    with a show "Handshake_client_auth_vnc NewCipher pw conn
        = (None, conn\<lparr>rd := rest, wr := wr conn @ cipher (take 8 ch) @ cipher (drop 8 ch)\<rparr>)"
      by (intro Handshake_legacy_response) simp_all
  qed
qed

text \<open>
  C10: the two handshakes at a non-empty password, a connection that presents a 16-byte
  challenge, and a cipher constructor that rejects the key. The handshake of security.go
  returns no error and has written the 16 bytes of the challenge back unencrypted; the
  handshake of client\_auth\_vnc.go returns the constructor's error and has written
  nothing. So the two differ for a non-empty password as well, through the error that
  line 66 of security.go drops.
\<close>

theorem handshakes_differ_on_rejected_key:
  "Handshake (\<lambda>key. Inl (KeySizeError (length key))) [0x70, 0x77]
       \<lparr>rd = [16, 17, 18, 19, 20, 21, 22, 23, 24, 25, 26, 27, 28, 29, 30, 31], wr = [],
          wr_err = None\<rparr>
     = (None, \<lparr>rd = [], wr = [16, 17, 18, 19, 20, 21, 22, 23, 24, 25, 26, 27, 28, 29, 30, 31],
                wr_err = None\<rparr>) \<and>
   Handshake_client_auth_vnc (\<lambda>key. Inl (KeySizeError (length key))) [0x70, 0x77]
       \<lparr>rd = [16, 17, 18, 19, 20, 21, 22, 23, 24, 25, 26, 27, 28, 29, 30, 31], wr = [],
          wr_err = None\<rparr>
     = (Some (KeySizeError 8), \<lparr>rd = [], wr = [], wr_err = None\<rparr>)"
  by (simp add: Handshake_def Handshake_client_auth_vnc_def encode_def encode_key_eq
        Handshake_key_eq Conn_Read_def Conn_Write_def Read_bytes_def ReadFull_def
        vncAuthChallengeSize_def)

section \<open>Decoding server messages\<close>

text \<open>
  C2: the code at a stream of 3 padding bytes, the length 5 and the bytes of "hello".
  \<^verbatim>\<open>ServerCutText.Read\<close> reads one padding byte, takes the next four bytes (two of the
  padding and the top two of the length) as the length 0, and returns the empty text
  after 5 bytes; the other 7 bytes are left in the stream.
\<close>

theorem ServerCutText_one_pad_byte:
  "ServerCutText_Read c [0, 0, 0, 0, 0, 0, 5, 0x68, 0x65, 0x6C, 0x6C, 0x6F]
     = (Inr \<lparr>Text = []\<rparr>, [0, 5, 0x68, 0x65, 0x6C, 0x6C, 0x6F])"
  by (simp add: ServerCutText_Read_def ReadFull_def Read_uint32_def Read_bytes_def Uint32_def)

subsection \<open>Reading back what was sent\<close>

lemma Uint16_PutUint16: "Uint16 (PutUint16 v) = v"
  unfolding Uint16_def PutUint16_def
  by (rule bit_word_eqI) (auto simp add: bit_simps)

lemma be32_join:
  "ucast (ucast v :: u8) OR push_bit 8 (ucast (ucast (drop_bit 8 v) :: u8))
     OR push_bit 16 (ucast (ucast (drop_bit 16 v) :: u8))
     OR push_bit 24 (ucast (ucast (drop_bit 24 v) :: u8)) = v" (is "?w = v")
  for v :: u32
proof (rule bit_word_eqI)
  fix n :: nat
  assume "n < LENGTH(32)"
  then consider "n < 8" | "8 \<le> n" "n < 16" | "16 \<le> n" "n < 24" | "24 \<le> n" "n < 32"
    by fastforce
  then show "bit ?w n = bit v n"
    by cases (auto simp add: bit_simps)
qed

lemma Uint32_PutUint32: "Uint32 (PutUint32 v) = v"
  by (simp add: Uint32_def PutUint32_def be32_join)

lemma length_PutUint16: "length (PutUint16 v) = 2"
  by (simp add: PutUint16_def)

lemma length_PutUint32: "length (PutUint32 v) = 4"
  by (simp add: PutUint32_def)

lemma ReadFull_append: "length bs = n \<Longrightarrow> ReadFull n (bs @ rest) = (Inr bs, rest)"
  by (simp add: ReadFull_def)

lemma Read_uint16_Put: "Read_uint16 (PutUint16 v @ rest) = (Inr v, rest)"
  by (simp add: Read_uint16_def ReadFull_append length_PutUint16 Uint16_PutUint16)

lemma length_RectangleMessage_bytes: "length (RectangleMessage_bytes msg) = 12"
  by (simp add: RectangleMessage_bytes_def length_PutUint16 length_PutUint32)

lemma receive_append:
  "length bs = n \<Longrightarrow> stream c = bs @ rest \<Longrightarrow> receive n c = (Inr bs, c\<lparr>stream := rest\<rparr>)"
  by (simp add: receive_def ReadFull_append)

lemma receive_uint16_Put:
  assumes "stream c = PutUint16 v @ rest"
  shows "receive_uint16 c = (Inr v, c\<lparr>stream := rest\<rparr>)"
proof -
  have "receive 2 c = (Inr (PutUint16 v), c\<lparr>stream := rest\<rparr>)"
    using assms by (intro receive_append) (simp_all add: length_PutUint16)
  then show ?thesis
    by (simp add: receive_uint16_def Uint16_PutUint16)
qed

lemma receive_RectangleMessage_bytes:
  assumes "stream c = RectangleMessage_bytes msg @ rest"
  shows "receive_RectangleMessage c = (Inr msg, c\<lparr>stream := rest\<rparr>)"
proof -
  have "receive 12 c = (Inr (RectangleMessage_bytes msg), c\<lparr>stream := rest\<rparr>)"
    using assms by (simp add: receive_append length_RectangleMessage_bytes)
  moreover have "Uint16 (take 2 (RectangleMessage_bytes msg)) = msg_X msg"
    "Uint16 (take 2 (drop 2 (RectangleMessage_bytes msg))) = msg_Y msg"
    "Uint16 (take 2 (drop 4 (RectangleMessage_bytes msg))) = msg_Width msg"
    "Uint16 (take 2 (drop 6 (RectangleMessage_bytes msg))) = msg_Height msg"
    "Uint32 (take 4 (drop 8 (RectangleMessage_bytes msg))) = msg_Encoding msg"
    by (simp_all add: RectangleMessage_bytes_def length_PutUint16 length_PutUint32
          Uint16_PutUint16 Uint32_PutUint32)
  ultimately show ?thesis
    by (simp add: receive_RectangleMessage_def)
qed

lemma unat_Suc_less: "i < n \<Longrightarrow> unat (i + 1) = Suc (unat i)" for i n :: u16
  by unat_arith

lemma rects_loop_run:
  assumes "stream c = concat (map RectangleMessage_bytes good) @ rest"
    and "unat i + length good \<le> unat numRects"
    and "length rects = unat numRects"
    and "\<forall>msg\<in>set good. m (msg_Encoding msg) \<noteq> None"
  shows "rects_loop m numRects i rects c
           = rects_loop m numRects (i + of_nat (length good))
               (take (unat i) rects @ map (Rectangle_of m) good
                  @ drop (unat i + length good) rects)
               (c\<lparr>stream := rest\<rparr>)"
  using assms
proof (induction good arbitrary: i rects c)
  case Nil
  then have "c\<lparr>stream := rest\<rparr> = c"
    by simp
  then show ?case
    by simp
next
  case (Cons msg good)
  let ?c = "c\<lparr>stream := concat (map RectangleMessage_bytes good) @ rest\<rparr>"
  let ?rect = "Rectangle_of m msg"
  from Cons.prems(2) have lt: "i < numRects"
    by (simp add: word_less_nat_alt)
  then have suc: "unat (i + 1) = Suc (unat i)"
    by (rule unat_Suc_less)
  from Cons.prems(4) obtain enc where enc: "m (msg_Encoding msg) = Some enc"
    by auto
  have recv: "receive_RectangleMessage c = (Inr msg, ?c)"
    using Cons.prems(1) by (intro receive_RectangleMessage_bytes) simp
  have step: "rects_loop m numRects i rects c
                = rects_loop m numRects (i + 1) (rects[unat i := ?rect]) ?c"
    by (subst rects_loop.simps) (simp add: lt recv enc Rectangle_of_def)
  have "rects_loop m numRects (i + 1) (rects[unat i := ?rect]) ?c
          = rects_loop m numRects (i + 1 + of_nat (length good))
              (take (unat (i + 1)) (rects[unat i := ?rect]) @ map (Rectangle_of m) good
                 @ drop (unat (i + 1) + length good) (rects[unat i := ?rect]))
              (?c\<lparr>stream := rest\<rparr>)"
    using Cons.prems by (intro Cons.IH) (simp_all add: suc)
  moreover have "take (unat (i + 1)) (rects[unat i := ?rect]) = take (unat i) rects @ [?rect]"
    using Cons.prems(2,3) by (simp add: suc take_Suc_conv_app_nth)
  moreover have "drop (unat (i + 1) + length good) (rects[unat i := ?rect])
                   = drop (unat i + length (msg # good)) rects"
    by (simp add: suc)
  moreover have "i + 1 + of_nat (length good) = i + of_nat (length (msg # good))"
    by simp
  ultimately show ?case
    using step by simp
qed

lemma unat_of_nat_u16: "n < 65536 \<Longrightarrow> unat (of_nat n :: u16) = n"
  by (simp add: unat_of_nat)

lemma unat_u16_bound: "unat (w :: u16) < 65536"
  using unsigned_less [of w] by simp

lemma rects_loop_done: "rects_loop m numRects numRects rects c = (Inr rects, c)"
  by (subst rects_loop.simps) simp

lemma rects_loop_all:
  assumes "stream c = concat (map RectangleMessage_bytes msgs) @ rest"
    and "length msgs = unat numRects"
    and "length rects = unat numRects"
    and "\<forall>msg\<in>set msgs. m (msg_Encoding msg) \<noteq> None"
  shows "rects_loop m numRects 0 rects c
           = (Inr (map (Rectangle_of m) msgs), c\<lparr>stream := rest\<rparr>)"
proof -
  have "rects_loop m numRects 0 rects c
          = rects_loop m numRects (0 + of_nat (length msgs))
              (take (unat (0::u16)) rects @ map (Rectangle_of m) msgs
                 @ drop (unat (0::u16) + length msgs) rects)
              (c\<lparr>stream := rest\<rparr>)"
    using assms by (intro rects_loop_run) simp_all
  then show ?thesis
    using assms(2,3) by (simp add: rects_loop_done)
qed

lemma rects_loop_unsupported:
  assumes "stream c = concat (map RectangleMessage_bytes good)
                        @ RectangleMessage_bytes bad @ rest"
    and "length good < unat numRects"
    and "length rects = unat numRects"
    and "\<forall>msg\<in>set good. m (msg_Encoding msg) \<noteq> None"
    and "m (msg_Encoding bad) = None"
  shows "rects_loop m numRects 0 rects c
           = (Inl (UnsupportedEncodingType (msg_Encoding bad)), c\<lparr>stream := rest\<rparr>)"
proof -
  let ?i = "of_nat (length good) :: u16"
  let ?c = "c\<lparr>stream := RectangleMessage_bytes bad @ rest\<rparr>"
  have run: "rects_loop m numRects 0 rects c
          = rects_loop m numRects (0 + ?i)
              (take (unat (0::u16)) rects @ map (Rectangle_of m) good
                 @ drop (unat (0::u16) + length good) rects) ?c"
    using assms by (intro rects_loop_run) simp_all
  have "length good < 65536"
    using assms(2) unat_u16_bound [of numRects] by simp
  then have "unat ?i = length good"
    by (rule unat_of_nat_u16)
  with assms(2) have lt: "?i < numRects"
    by (simp add: word_less_nat_alt)
  have recv: "receive_RectangleMessage ?c = (Inr bad, ?c\<lparr>stream := rest\<rparr>)"
    by (intro receive_RectangleMessage_bytes) simp
  show ?thesis
    unfolding run
    by (subst rects_loop.simps) (simp add: lt recv assms(5))
qed

lemma FramebufferUpdate_Read_header:
  assumes "stream c = pad # PutUint16 numRects @ body"
  shows "FramebufferUpdate_Read Type Raw NewRawEncoding c =
           (case rects_loop (encMap Type Raw NewRawEncoding (Encodings c)) numRects 0
                   (replicate (unat numRects) \<lparr>X = 0, Y = 0, Width = 0, Height = 0, Enc = None\<rparr>)
                   (c\<lparr>stream := body\<rparr>) of
              (Inl err, c) \<Rightarrow> (Inl err, c)
            | (Inr rects, c) \<Rightarrow> (Inr (NewFramebufferUpdate rects), c))"
proof -
  have "receive 1 c = (Inr [pad], c\<lparr>stream := PutUint16 numRects @ body\<rparr>)"
    using assms by (intro receive_append) simp_all
  moreover have "receive_uint16 (c\<lparr>stream := PutUint16 numRects @ body\<rparr>)
                   = (Inr numRects, c\<lparr>stream := body\<rparr>)"
    using receive_uint16_Put [of "c\<lparr>stream := PutUint16 numRects @ body\<rparr>" numRects body]
    by simp
  ultimately show ?thesis
    by (simp add: FramebufferUpdate_Read_def Let_def)
qed

lemma find_app:
  "find P (xs @ ys) = (case find P xs of None \<Rightarrow> find P ys | Some x \<Rightarrow> Some x)"
  by (induction xs) simp_all

lemma fold_upd_lookup:
  "fold (\<lambda>e m. m(T e \<mapsto> e)) es m0 k
     = (case find (\<lambda>e. T e = k) (rev es) of None \<Rightarrow> m0 k | Some e \<Rightarrow> Some e)"
proof (induction es arbitrary: m0)
  case Nil
  then show ?case by simp
next
  case (Cons e es)
  then show ?case
    by (simp add: find_app split: option.split)
qed

lemma encMap_Raw: "encMap Type Raw NewRawEncoding es Raw = Some (NewRawEncoding [])"
  by (simp add: encMap_def)

lemma encMap_other:
  "k \<noteq> Raw \<Longrightarrow> encMap Type Raw NewRawEncoding es k = find (\<lambda>e. Type e = k) (rev es)"
  by (simp add: encMap_def fold_upd_lookup split: option.split)

text \<open>
  C4: a FramebufferUpdate whose stream holds the padding byte, the count \<open>numRects\<close>, the
  headers \<open>good\<close> of fewer than \<open>numRects\<close> rectangles whose encoding ids are all in
  the registry built for this decode, then a header \<open>bad\<close> whose id is not in it.
  Decoding returns the error that carries the id of \<open>bad\<close> and no message; the stream
  stands right after the header of \<open>bad\<close>, so that nothing of what follows has been
  decoded.
\<close>

theorem unsupported_encoding_aborts:
  assumes "stream c = pad # PutUint16 numRects @ concat (map RectangleMessage_bytes good)
                        @ RectangleMessage_bytes bad @ rest"
    and "length good < unat numRects"
    and "\<forall>msg\<in>set good. encMap Type Raw NewRawEncoding (Encodings c) (msg_Encoding msg) \<noteq> None"
    and "encMap Type Raw NewRawEncoding (Encodings c) (msg_Encoding bad) = None"
  shows "FramebufferUpdate_Read Type Raw NewRawEncoding c
           = (Inl (UnsupportedEncodingType (msg_Encoding bad)), c\<lparr>stream := rest\<rparr>)"
proof -
  let ?body = "concat (map RectangleMessage_bytes good) @ RectangleMessage_bytes bad @ rest"
  have "rects_loop (encMap Type Raw NewRawEncoding (Encodings c)) numRects 0
          (replicate (unat numRects) \<lparr>X = 0, Y = 0, Width = 0, Height = 0, Enc = None\<rparr>)
          (c\<lparr>stream := ?body\<rparr>)
        = (Inl (UnsupportedEncodingType (msg_Encoding bad)), c\<lparr>stream := ?body\<rparr>\<lparr>stream := rest\<rparr>)"
    using assms(2-4) by (intro rects_loop_unsupported) simp_all
  then show ?thesis
    using FramebufferUpdate_Read_header [OF assms(1), of Type Raw NewRawEncoding]
    by simp
qed

theorem unsupported_encoding_aborts_witness:
  "stream \<lparr>stream = [0, 0, 2, 0, 1, 0, 2, 0, 3, 0, 4, 0, 0, 0, 5,
                        0, 5, 0, 6, 0, 7, 0, 8, 0, 0, 0, 7, 0xAA],
           Encodings = [5 :: int32], colorMap = Map.empty, debug = False\<rparr>
     = 0 # PutUint16 2
         @ concat (map RectangleMessage_bytes
             [\<lparr>msg_X = 1, msg_Y = 2, msg_Width = 3, msg_Height = 4, msg_Encoding = 5\<rparr>])
         @ RectangleMessage_bytes
             \<lparr>msg_X = 5, msg_Y = 6, msg_Width = 7, msg_Height = 8, msg_Encoding = 7\<rparr>
         @ [0xAA] \<and>
   length [\<lparr>msg_X = 1, msg_Y = 2, msg_Width = 3, msg_Height = 4, msg_Encoding = 5 :: int32\<rparr>]
     < unat (2 :: u16) \<and>
   encMap (\<lambda>e. e) 0 (\<lambda>colors. 0) [5 :: int32] 5 = Some 5 \<and>
   encMap (\<lambda>e. e) 0 (\<lambda>colors. 0) [5 :: int32] 7 = None \<and>
   FramebufferUpdate_Read (\<lambda>e. e) 0 (\<lambda>colors. 0)
       \<lparr>stream = [0, 0, 2, 0, 1, 0, 2, 0, 3, 0, 4, 0, 0, 0, 5,
                  0, 5, 0, 6, 0, 7, 0, 8, 0, 0, 0, 7, 0xAA],
        Encodings = [5 :: int32], colorMap = Map.empty, debug = False\<rparr>
     = (Inl (UnsupportedEncodingType 7),
        \<lparr>stream = [0xAA], Encodings = [5], colorMap = Map.empty, debug = False\<rparr>)"
proof -
  let ?c = "\<lparr>stream = [0, 0, 2, 0, 1, 0, 2, 0, 3, 0, 4, 0, 0, 0, 5,
                        0, 5, 0, 6, 0, 7, 0, 8, 0, 0, 0, 7, 0xAA],
             Encodings = [5 :: int32], colorMap = Map.empty, debug = False\<rparr>"
  let ?good = "\<lparr>msg_X = 1, msg_Y = 2, msg_Width = 3, msg_Height = 4, msg_Encoding = 5 :: int32\<rparr>"
  let ?bad = "\<lparr>msg_X = 5, msg_Y = 6, msg_Width = 7, msg_Height = 8, msg_Encoding = 7 :: int32\<rparr>"
  have s: "stream ?c = 0 # PutUint16 2 @ concat (map RectangleMessage_bytes [?good])
                         @ RectangleMessage_bytes ?bad @ [0xAA]"
    by (simp add: PutUint16_def PutUint32_def RectangleMessage_bytes_def)
  have n: "length [?good] < unat (2 :: u16)"
    by simp
  have g: "\<forall>msg \<in> set [?good].
             encMap (\<lambda>e. e) 0 (\<lambda>colors. 0) (Encodings ?c) (msg_Encoding msg) \<noteq> None"
    by (simp add: encMap_def)
  have b: "encMap (\<lambda>e. e) 0 (\<lambda>colors. 0) (Encodings ?c) (msg_Encoding ?bad) = None"
    by (simp add: encMap_def)
  have g': "encMap (\<lambda>e. e) 0 (\<lambda>colors. 0) [5 :: int32] 5 = Some 5"
    by (simp add: encMap_def)
  from unsupported_encoding_aborts [OF s n g b] s n g' b show ?thesis
    by simp
qed

text \<open>
  C5: for every configured encoding list \<open>es\<close>, the registry maps the Raw id to the
  built-in Raw decoder \<^verbatim>\<open>NewRawEncoding([]Color{})\<close>, whatever \<open>es\<close> holds for that id, and
  every other id to the last entry of \<open>es\<close> that has it (none when no entry has it). It
  is built anew by each decode from the list the connection has then: decoding an
  update of one rectangle resolves the rectangle's id in the registry of
  \<open>Encodings c\<close> of the connection \<open>c\<close> it is given.
\<close>

theorem encoding_registry:
  "encMap Type Raw NewRawEncoding es Raw = Some (NewRawEncoding []) \<and>
   (\<forall>k. k \<noteq> Raw \<longrightarrow>
      encMap Type Raw NewRawEncoding es k = find (\<lambda>e. Type e = k) (rev es)) \<and>
   (\<forall>c pad msg rest.
      stream c = pad # PutUint16 1 @ RectangleMessage_bytes msg @ rest \<longrightarrow>
      FramebufferUpdate_Read Type Raw NewRawEncoding c =
        (case encMap Type Raw NewRawEncoding (Encodings c) (msg_Encoding msg) of
           None \<Rightarrow> (Inl (UnsupportedEncodingType (msg_Encoding msg)), c\<lparr>stream := rest\<rparr>)
         | Some enc \<Rightarrow>
             (Inr \<lparr>Msg = 0, NumRect = 1,
                   Rects = [\<lparr>X = msg_X msg, Y = msg_Y msg, Width = msg_Width msg,
                             Height = msg_Height msg, Enc = Some enc\<rparr>]\<rparr>,
              c\<lparr>stream := rest\<rparr>)))"
proof (intro conjI allI impI)
  show "encMap Type Raw NewRawEncoding es Raw = Some (NewRawEncoding [])"
    by (rule encMap_Raw)
next
  fix k :: int32
  assume "k \<noteq> Raw"
  then show "encMap Type Raw NewRawEncoding es k = find (\<lambda>e. Type e = k) (rev es)"
    by (rule encMap_other)
next
  fix c :: "'a ClientConn" and pad msg rest
  assume s: "stream c = pad # PutUint16 1 @ RectangleMessage_bytes msg @ rest"
  let ?m = "encMap Type Raw NewRawEncoding (Encodings c)"
  let ?z = "\<lparr>X = 0, Y = 0, Width = 0, Height = 0, Enc = None :: 'a option\<rparr>"
  let ?c = "c\<lparr>stream := RectangleMessage_bytes msg @ rest\<rparr>"
  have hd: "FramebufferUpdate_Read Type Raw NewRawEncoding c =
           (case rects_loop ?m 1 0 (replicate (unat (1::u16)) ?z) ?c of
              (Inl err, c) \<Rightarrow> (Inl err, c)
            | (Inr rects, c) \<Rightarrow> (Inr (NewFramebufferUpdate rects), c))"
    using s by (rule FramebufferUpdate_Read_header)
  show "FramebufferUpdate_Read Type Raw NewRawEncoding c =
        (case ?m (msg_Encoding msg) of
           None \<Rightarrow> (Inl (UnsupportedEncodingType (msg_Encoding msg)), c\<lparr>stream := rest\<rparr>)
         | Some enc \<Rightarrow>
             (Inr \<lparr>Msg = 0, NumRect = 1,
                   Rects = [\<lparr>X = msg_X msg, Y = msg_Y msg, Width = msg_Width msg,
                             Height = msg_Height msg, Enc = Some enc\<rparr>]\<rparr>,
              c\<lparr>stream := rest\<rparr>))"
  proof (cases "?m (msg_Encoding msg)")
    case None
    have "rects_loop ?m 1 0 (replicate (unat (1::u16)) ?z) ?c
            = (Inl (UnsupportedEncodingType (msg_Encoding msg)), ?c\<lparr>stream := rest\<rparr>)"
      using None
      by (intro rects_loop_unsupported [where good = "[]"]) simp_all
    with None hd show ?thesis
      by simp
  next
    case (Some enc)
    have "rects_loop ?m 1 0 (replicate (unat (1::u16)) ?z) ?c
            = (Inr (map (Rectangle_of ?m) [msg]), ?c\<lparr>stream := rest\<rparr>)"
      using Some by (intro rects_loop_all) simp_all
    with Some hd show ?thesis
      by (simp add: Rectangle_of_def NewFramebufferUpdate_def FramebufferUpdateMsg_def)
  qed
qed

theorem encoding_registry_witness:
  "encMap fst 0 (\<lambda>colors. (0, 0)) [(5, 1), (0, 2), (5, 3 :: nat)] 0 = Some (0, 0) \<and>
   (5 :: int32) \<noteq> 0 \<and>
   encMap fst 0 (\<lambda>colors. (0, 0)) [(5, 1), (0, 2), (5, 3 :: nat)] 5 = Some (5, 3) \<and>
   FramebufferUpdate_Read fst 0 (\<lambda>colors. (0, 0))
       \<lparr>stream = [0, 0, 1, 0, 1, 0, 2, 0, 3, 0, 4, 0, 0, 0, 5, 0xAA],
        Encodings = [(5, 1), (0, 2), (5, 3 :: nat)], colorMap = Map.empty, debug = False\<rparr>
     = (Inr \<lparr>Msg = 0, NumRect = 1,
            Rects = [\<lparr>X = 1, Y = 2, Width = 3, Height = 4, Enc = Some (5, 3)\<rparr>]\<rparr>,
        \<lparr>stream = [0xAA], Encodings = [(5, 1), (0, 2), (5, 3)], colorMap = Map.empty,
         debug = False\<rparr>)"
proof -
  let ?es = "[(5, 1), (0, 2), (5, 3 :: nat)] :: (int32 \<times> nat) list"
  let ?c = "\<lparr>stream = [0, 0, 1, 0, 1, 0, 2, 0, 3, 0, 4, 0, 0, 0, 5, 0xAA],
             Encodings = ?es, colorMap = Map.empty, debug = False\<rparr>"
  let ?msg = "\<lparr>msg_X = 1, msg_Y = 2, msg_Width = 3, msg_Height = 4, msg_Encoding = 5 :: int32\<rparr>"
  note reg = encoding_registry [of fst 0 "\<lambda>colors. (0, 0)" ?es]
  have s: "stream ?c = 0 # PutUint16 1 @ RectangleMessage_bytes ?msg @ [0xAA]"
    by (simp add: PutUint16_def PutUint32_def RectangleMessage_bytes_def)
  from reg have raw: "encMap fst 0 (\<lambda>colors. (0, 0)) ?es 0 = Some (0, 0)"
    by blast
  from reg have "(5 :: int32) \<noteq> 0 \<longrightarrow>
      encMap fst 0 (\<lambda>colors. (0, 0)) ?es 5 = find (\<lambda>e. fst e = 5) (rev ?es)"
    by blast
  then have five: "encMap fst 0 (\<lambda>colors. (0, 0)) ?es 5 = Some (5, 3)"
    by simp
  from reg have "stream ?c = 0 # PutUint16 1 @ RectangleMessage_bytes ?msg @ [0xAA] \<longrightarrow>
      FramebufferUpdate_Read fst 0 (\<lambda>colors. (0, 0)) ?c =
        (case encMap fst 0 (\<lambda>colors. (0, 0)) (Encodings ?c) (msg_Encoding ?msg) of
           None \<Rightarrow> (Inl (UnsupportedEncodingType (msg_Encoding ?msg)), ?c\<lparr>stream := [0xAA]\<rparr>)
         | Some enc \<Rightarrow>
             (Inr \<lparr>Msg = 0, NumRect = 1,
                   Rects = [\<lparr>X = msg_X ?msg, Y = msg_Y ?msg, Width = msg_Width ?msg,
                             Height = msg_Height ?msg, Enc = Some enc\<rparr>]\<rparr>,
              ?c\<lparr>stream := [0xAA]\<rparr>))"
    by blast
  with s five have "FramebufferUpdate_Read fst 0 (\<lambda>colors. (0, 0)) ?c
     = (Inr \<lparr>Msg = 0, NumRect = 1,
            Rects = [\<lparr>X = 1, Y = 2, Width = 3, Height = 4, Enc = Some (5, 3)\<rparr>]\<rparr>,
        \<lparr>stream = [0xAA], Encodings = ?es, colorMap = Map.empty, debug = False\<rparr>)"
    by simp
  with raw five show ?thesis
    by simp
qed

subsection \<open>The color map\<close>

lemma length_Color_bytes: "length (Color_bytes color) = 6"
  by (simp add: Color_bytes_def length_PutUint16)

lemma colors_loop_done: "colors_loop first numColors numColors colors c r = (Inr colors, c, r)"
  by (subst colors_loop.simps) simp

lemma colors_loop_step:
  assumes "i < numColors"
  shows "colors_loop first numColors i colors c (Color_bytes color @ rest)
           = colors_loop first numColors (i + 1) (colors[unat i := color])
               (c\<lparr>colorMap := (colorMap c)(first + i \<mapsto> color)\<rparr>) rest"
proof -
  have "\<lparr>R = R color, G = G color, B = B color\<rparr> = color"
    by simp
  then show ?thesis
    by (subst colors_loop.simps)
       (simp add: assms Color_bytes_def Read_uint16_Put Let_def del: Color.simps)
qed

lemma colors_loop_run:
  assumes "unat i + length cs \<le> unat numColors"
    and "length colors = unat numColors"
  shows "colors_loop first numColors i colors c (concat (map Color_bytes cs) @ rest)
           = colors_loop first numColors (i + of_nat (length cs))
               (take (unat i) colors @ cs @ drop (unat i + length cs) colors)
               (c\<lparr>colorMap := store_colors (first + i) cs (colorMap c)\<rparr>) rest"
  using assms
proof (induction cs arbitrary: i colors c)
  case Nil
  then show ?case
    by simp
next
  case (Cons color cs)
  let ?c = "c\<lparr>colorMap := (colorMap c)(first + i \<mapsto> color)\<rparr>"
  from Cons.prems(1) have lt: "i < numColors"
    by (simp add: word_less_nat_alt)
  then have suc: "unat (i + 1) = Suc (unat i)"
    by (rule unat_Suc_less)
  have "colors_loop first numColors i colors c (concat (map Color_bytes (color # cs)) @ rest)
          = colors_loop first numColors (i + 1) (colors[unat i := color]) ?c
              (concat (map Color_bytes cs) @ rest)"
    using colors_loop_step [OF lt, of first colors c color "concat (map Color_bytes cs) @ rest"]
    by simp
  also have "\<dots> = colors_loop first numColors (i + 1 + of_nat (length cs))
              (take (unat (i + 1)) (colors[unat i := color]) @ cs
                 @ drop (unat (i + 1) + length cs) (colors[unat i := color]))
              (?c\<lparr>colorMap := store_colors (first + (i + 1)) cs (colorMap ?c)\<rparr>) rest"
    using Cons.prems by (intro Cons.IH) (simp_all add: suc)
  also have "take (unat (i + 1)) (colors[unat i := color]) = take (unat i) colors @ [color]"
    using Cons.prems by (simp add: suc take_Suc_conv_app_nth)
  also have "drop (unat (i + 1) + length cs) (colors[unat i := color])
               = drop (unat i + length (color # cs)) colors"
    by (simp add: suc)
  also have "i + 1 + of_nat (length cs) = i + of_nat (length (color # cs))"
    by simp
  also have "?c\<lparr>colorMap := store_colors (first + (i + 1)) cs (colorMap ?c)\<rparr>
               = c\<lparr>colorMap := store_colors (first + i) (color # cs) (colorMap c)\<rparr>"
    by (simp add: add.assoc)
  finally show ?case
    by simp
qed

lemma store_colors_other:
  "(\<forall>j<length cs. k' \<noteq> k + of_nat j) \<Longrightarrow> store_colors k cs cm k' = cm k'"
proof (induction cs arbitrary: k cm)
  case Nil
  then show ?case by simp
next
  case (Cons color cs)
  have "k' \<noteq> k + of_nat 0"
    using Cons.prems by blast
  moreover have "\<forall>j<length cs. k' \<noteq> k + 1 + of_nat j"
  proof (intro allI impI)
    fix j assume "j < length cs"
    then have "k' \<noteq> k + of_nat (Suc j)"
      using Cons.prems by auto
    then show "k' \<noteq> k + 1 + of_nat j"
      by (simp add: add.assoc)
  qed
  ultimately have "k' \<noteq> k"
    and "store_colors (k + 1) cs (cm(k \<mapsto> color)) k' = (cm(k \<mapsto> color)) k'"
    by (simp_all add: Cons.IH)
  then show ?case
    by simp
qed

lemma of_nat_u16_neq_0: "0 < n \<Longrightarrow> n < 65536 \<Longrightarrow> (of_nat n :: u16) \<noteq> 0"
  using unat_of_nat_u16 [of n] by force

lemma store_colors_nth:
  "j < length cs \<Longrightarrow> length cs \<le> 65536 \<Longrightarrow>
     store_colors k cs cm (k + of_nat j) = Some (cs ! j)"
proof (induction cs arbitrary: k cm j)
  case Nil
  then show ?case by simp
next
  case (Cons color cs)
  show ?case
  proof (cases j)
    case 0
    have "\<forall>j'<length cs. k \<noteq> k + 1 + of_nat j'"
    proof (intro allI impI)
      fix j' assume "j' < length cs"
      then have "(of_nat (Suc j') :: u16) \<noteq> 0"
        using Cons.prems(2) by (intro of_nat_u16_neq_0) simp_all
      then show "k \<noteq> k + 1 + of_nat j'"
        by (simp add: add.assoc)
    qed
    then have "store_colors (k + 1) cs (cm(k \<mapsto> color)) k = (cm(k \<mapsto> color)) k"
      by (rule store_colors_other)
    with 0 show ?thesis
      by simp
  next
    case (Suc j')
    with Cons.prems have "store_colors (k + 1) cs (cm(k \<mapsto> color)) (k + 1 + of_nat j') = Some (cs ! j')"
      by (intro Cons.IH) simp_all
    with Suc show ?thesis
      by (simp add: add.assoc)
  qed
qed

lemma SetColorMapEntries_Read_colors:
  assumes "r = pad # PutUint16 first @ PutUint16 (of_nat (length cs))
                 @ concat (map Color_bytes cs) @ rest"
    and "length cs < 65536"
  shows "SetColorMapEntries_Read c r
           = (Inr \<lparr>FirstColor = first, Colors = cs\<rparr>,
              c\<lparr>colorMap := store_colors first cs (colorMap c)\<rparr>, rest)"
proof -
  let ?n = "of_nat (length cs) :: u16"
  let ?z = "\<lparr>R = 0, G = 0, B = 0\<rparr>"
  have n: "unat ?n = length cs"
    using assms(2) by (rule unat_of_nat_u16)
  have "colors_loop first ?n 0 (replicate (unat ?n) ?z) c (concat (map Color_bytes cs) @ rest)
          = colors_loop first ?n (0 + of_nat (length cs))
               (take (unat (0::u16)) (replicate (unat ?n) ?z) @ cs
                  @ drop (unat (0::u16) + length cs) (replicate (unat ?n) ?z))
               (c\<lparr>colorMap := store_colors (first + 0) cs (colorMap c)\<rparr>) rest"
    by (intro colors_loop_run) (simp_all add: n)
  then have "colors_loop first ?n 0 (replicate (unat ?n) ?z) c (concat (map Color_bytes cs) @ rest)
          = (Inr cs, c\<lparr>colorMap := store_colors first cs (colorMap c)\<rparr>, rest)"
    by (simp add: n colors_loop_done)
  moreover have "ReadFull 1 r = (Inr [pad], PutUint16 first @ PutUint16 ?n
                                   @ concat (map Color_bytes cs) @ rest)"
    unfolding assms(1) by (simp add: ReadFull_def)
  ultimately show ?thesis
    by (simp add: SetColorMapEntries_Read_def Read_uint16_Put Let_def)
qed

text \<open>
  C6: for every first color and every sequence \<open>cs\<close> of fewer than 65536 colors (the
  count is a \<^verbatim>\<open>uint16\<close>), decoding a SetColorMapEntries whose stream holds the padding
  byte, the first color, the count and the colors returns the message with that first
  color and these colors in order, and leaves the stream after the last color. The
  color map has been written in index order, each store overwriting: afterwards key
  \<open>first + j\<close>, summed in 16 bits, holds color \<open>j\<close>, and every other key holds what it
  held before.
\<close>

theorem SetColorMapEntries_stores_colors:
  assumes "r = pad # PutUint16 first @ PutUint16 (of_nat (length cs))
                 @ concat (map Color_bytes cs) @ rest"
    and "length cs < 65536"
  shows "SetColorMapEntries_Read c r
           = (Inr \<lparr>FirstColor = first, Colors = cs\<rparr>,
              c\<lparr>colorMap := store_colors first cs (colorMap c)\<rparr>, rest) \<and>
         (\<forall>j<length cs. store_colors first cs (colorMap c) (first + of_nat j) = Some (cs ! j)) \<and>
         (\<forall>k. (\<forall>j<length cs. k \<noteq> first + of_nat j) \<longrightarrow>
               store_colors first cs (colorMap c) k = colorMap c k)"
  using assms
  by (simp add: SetColorMapEntries_Read_colors store_colors_nth store_colors_other)

theorem SetColorMapEntries_stores_colors_witness:
  "[0, 0xFF, 0xFF, 0, 2, 0, 1, 0, 2, 0, 3, 0, 4, 0, 5, 0, 6, 0xAA]
     = 0 # PutUint16 65535
         @ PutUint16 (of_nat (length [\<lparr>R = 1, G = 2, B = 3\<rparr>, \<lparr>R = 4, G = 5, B = 6\<rparr>]))
         @ concat (map Color_bytes [\<lparr>R = 1, G = 2, B = 3\<rparr>, \<lparr>R = 4, G = 5, B = 6\<rparr>]) @ [0xAA] \<and>
   length [\<lparr>R = 1, G = 2, B = 3\<rparr>, \<lparr>R = 4, G = 5, B = 6 :: u16\<rparr>] < 65536 \<and>
   fst (SetColorMapEntries_Read
          \<lparr>stream = [], Encodings = [] :: nat list,
           colorMap = [0 \<mapsto> \<lparr>R = 9, G = 9, B = 9\<rparr>], debug = False\<rparr>
          [0, 0xFF, 0xFF, 0, 2, 0, 1, 0, 2, 0, 3, 0, 4, 0, 5, 0, 6, 0xAA])
     = Inr \<lparr>FirstColor = 65535, Colors = [\<lparr>R = 1, G = 2, B = 3\<rparr>, \<lparr>R = 4, G = 5, B = 6\<rparr>]\<rparr> \<and>
   colorMap (fst (snd (SetColorMapEntries_Read
          \<lparr>stream = [], Encodings = [] :: nat list,
           colorMap = [0 \<mapsto> \<lparr>R = 9, G = 9, B = 9\<rparr>], debug = False\<rparr>
          [0, 0xFF, 0xFF, 0, 2, 0, 1, 0, 2, 0, 3, 0, 4, 0, 5, 0, 6, 0xAA]))) 65535
     = Some \<lparr>R = 1, G = 2, B = 3\<rparr> \<and>
   colorMap (fst (snd (SetColorMapEntries_Read
          \<lparr>stream = [], Encodings = [] :: nat list,
           colorMap = [0 \<mapsto> \<lparr>R = 9, G = 9, B = 9\<rparr>], debug = False\<rparr>
          [0, 0xFF, 0xFF, 0, 2, 0, 1, 0, 2, 0, 3, 0, 4, 0, 5, 0, 6, 0xAA]))) 0
     = Some \<lparr>R = 4, G = 5, B = 6\<rparr> \<and>
   snd (snd (SetColorMapEntries_Read
          \<lparr>stream = [], Encodings = [] :: nat list,
           colorMap = [0 \<mapsto> \<lparr>R = 9, G = 9, B = 9\<rparr>], debug = False\<rparr>
          [0, 0xFF, 0xFF, 0, 2, 0, 1, 0, 2, 0, 3, 0, 4, 0, 5, 0, 6, 0xAA]))
     = [0xAA]"
proof -
  let ?cs = "[\<lparr>R = 1, G = 2, B = 3\<rparr>, \<lparr>R = 4, G = 5, B = 6 :: u16\<rparr>]"
  let ?r = "[0, 0xFF, 0xFF, 0, 2, 0, 1, 0, 2, 0, 3, 0, 4, 0, 5, 0, 6, 0xAA] :: u8 list"
  let ?c = "\<lparr>stream = [], Encodings = [] :: nat list,
             colorMap = [0 \<mapsto> \<lparr>R = 9, G = 9, B = 9\<rparr>], debug = False\<rparr>"
  have r: "?r = 0 # PutUint16 65535 @ PutUint16 (of_nat (length ?cs))
                  @ concat (map Color_bytes ?cs) @ [0xAA]"
    by (simp add: PutUint16_def Color_bytes_def)
  have n: "length ?cs < 65536"
    by simp
  note T = SetColorMapEntries_stores_colors [OF r n, of ?c]
  from T have run: "SetColorMapEntries_Read ?c ?r
      = (Inr \<lparr>FirstColor = 65535, Colors = ?cs\<rparr>,
         ?c\<lparr>colorMap := store_colors 65535 ?cs (colorMap ?c)\<rparr>, [0xAA])"
    by blast
  from T have nth: "\<forall>j<length ?cs.
      store_colors 65535 ?cs (colorMap ?c) (65535 + of_nat j) = Some (?cs ! j)"
    by blast
  from nth have "store_colors 65535 ?cs (colorMap ?c) (65535 + of_nat 0) = Some (?cs ! 0)"
    by (elim allE [of _ 0] impE) simp_all
  then have k0: "store_colors 65535 ?cs (colorMap ?c) 65535 = Some \<lparr>R = 1, G = 2, B = 3\<rparr>"
    by (simp del: store_colors.simps)
  from nth have "store_colors 65535 ?cs (colorMap ?c) (65535 + of_nat 1) = Some (?cs ! 1)"
    by (elim allE [of _ 1] impE) simp_all
  moreover have wrap: "(65535 :: u16) + of_nat 1 = 0"
    by simp
  ultimately have "store_colors 65535 ?cs (colorMap ?c) 0 = Some (?cs ! 1)"
    by (simp only: wrap)
  then have k1: "store_colors 65535 ?cs (colorMap ?c) 0 = Some \<lparr>R = 4, G = 5, B = 6\<rparr>"
    by (simp del: store_colors.simps)
  from run k0 k1
  have "fst (SetColorMapEntries_Read ?c ?r) = Inr \<lparr>FirstColor = 65535, Colors = ?cs\<rparr>"
    and "colorMap (fst (snd (SetColorMapEntries_Read ?c ?r))) 65535 = Some \<lparr>R = 1, G = 2, B = 3\<rparr>"
    and "colorMap (fst (snd (SetColorMapEntries_Read ?c ?r))) 0 = Some \<lparr>R = 4, G = 5, B = 6\<rparr>"
    and "snd (snd (SetColorMapEntries_Read ?c ?r)) = [0xAA]"
    by (simp_all del: store_colors.simps)
  with r n show ?thesis
    by blast
qed

end
